theory Spec2Isabelle
  imports Main "HOL-Library.Word"
begin

unbundle bit_operations_syntax

section \<open>The UTF-16 string class of \<^verbatim>\<open>src/utils/ustring.cpp\<close>\<close>

subsection \<open>Machine types and failures\<close>

text \<open>
  A code unit is a \<^verbatim>\<open>uint16_t\<close>, a \<^verbatim>\<open>char\<close> of a \<^verbatim>\<open>std::string\<close> is one byte.
  Values of type \<^verbatim>\<open>size_t\<close> are natural numbers below \<open>2 ^ 64\<close> (an LP64 host); where
  the source's arithmetic on them can leave that range, the wrap-around is written out
  with \<open>size_add\<close> and \<open>size_sub\<close>. A loop counter that stays below a vector's size
  cannot wrap and is incremented with plain \<open>+ 1\<close>.
\<close>

type_synonym uint16_t = "16 word"
type_synonym byte = "8 word"

definition SIZE_MAX :: nat where
  "SIZE_MAX = 2 ^ 64 - 1"

definition size_add :: "nat \<Rightarrow> nat \<Rightarrow> nat" where
  "size_add a b = (a + b) mod 2 ^ 64"

definition size_sub :: "nat \<Rightarrow> nat \<Rightarrow> nat" where
  "size_sub a b = (a + 2 ^ 64 - b mod 2 ^ 64) mod 2 ^ 64"

text \<open>
  What a call can end with instead of a value: the two exceptions the code can throw
  (\<^verbatim>\<open>std::out_of_range\<close> from \<^verbatim>\<open>substr\<close>, \<^verbatim>\<open>std::length_error\<close> from
  \<^verbatim>\<open>vector::reserve\<close>), and the two ways it can leave defined behaviour: an access
  outside the array or vector it indexes (for \<^verbatim>\<open>operator[]\<close> of the class, at or beyond
  the logical length), and a read through a pointer into storage that a reallocation has
  released.
\<close>

datatype error = OutOfRange | LengthError | OutOfBounds | DanglingPointer

text \<open>
  \<^verbatim>\<open>vector<uint16_t>::max_size()\<close>, the bound that \<^verbatim>\<open>reserve\<close> checks: the largest
  object size \<open>2 ^ 63 - 1\<close> divided by the two bytes of a unit. Containers that exist
  are never larger, so \<^verbatim>\<open>reserve\<close> is modelled only where its argument comes from the
  caller and not from the size of an existing container, which is in \<open>substr\<close>.
\<close>

definition max_size :: nat where
  "max_size = (2 ^ 63 - 1) div 2"

text \<open>\<^verbatim>\<open>v[i]\<close> on a \<^verbatim>\<open>std::vector\<close> or a raw array of known extent.\<close>

definition vec_at :: "'a list \<Rightarrow> nat \<Rightarrow> error + 'a" where
  "vec_at v i = (if i < length v then Inr (v ! i) else Inl OutOfBounds)"

subsection \<open>The class\<close>

text \<open>
  The class has one data member, \<^verbatim>\<open>std::vector<uint16_t> _str\<close> (the field is named
  \<open>str\<close> here, an identifier cannot start with an underscore).
\<close>

record ustring =
  str :: "uint16_t list"

text \<open>\<^verbatim>\<open>const size_t ustring::npos = ~0;\<close>\<close>

definition npos :: nat where
  "npos = SIZE_MAX"

text \<open>
  Modelled from the spec: \<^verbatim>\<open>length()\<close> is declared inline in \<^verbatim>\<open>ustring.h\<close>, which is
  not among the sources. The spec: "returns logical length (unit count excluding
  sentinel)".
\<close>

definition length_u :: "ustring \<Rightarrow> nat" where
  "length_u s = length (str s) - 1"

text \<open>
  Modelled from the spec: \<^verbatim>\<open>empty()\<close> is declared inline in \<^verbatim>\<open>ustring.h\<close>. The spec:
  "\<^verbatim>\<open>empty()\<close>: \<^verbatim>\<open>length() == 0\<close>".
\<close>

definition empty_u :: "ustring \<Rightarrow> bool" where
  "empty_u s = (length_u s = 0)"

text \<open>
  Modelled from the spec: \<^verbatim>\<open>operator[]\<close> is declared inline in \<^verbatim>\<open>ustring.h\<close>. The spec:
  "returns the code unit at position i; undefined for i \<ge> length()". The undefined read
  is the failure \<open>OutOfBounds\<close>.
\<close>

definition operator_index :: "ustring \<Rightarrow> nat \<Rightarrow> error + uint16_t" where
  "operator_index s i = (if i < length_u s then Inr (str s ! i) else Inl OutOfBounds)"

text \<open>The logical content: the storage without its last element.\<close>

definition units :: "ustring \<Rightarrow> uint16_t list" where
  "units s = butlast (str s)"

text \<open>The class invariant of the spec: the storage is not empty and ends with \<open>0\<close>.\<close>

definition invariant :: "ustring \<Rightarrow> bool" where
  "invariant s = (str s \<noteq> [] \<and> last (str s) = 0)"

subsection \<open>Searching for one unit\<close>

text \<open>
  \<^verbatim>\<open>for(size_t j = pos; j < len; ++j) { if(_str[j] == c) return j; } return npos;\<close>
\<close>

function find_c_loop :: "ustring \<Rightarrow> uint16_t \<Rightarrow> nat \<Rightarrow> nat \<Rightarrow> error + nat" where
  "find_c_loop s c len j =
     (if j < len then
        (case vec_at (str s) j of
           Inl e \<Rightarrow> Inl e
         | Inr u \<Rightarrow> if u = c then Inr j else find_c_loop s c len (j + 1))
      else Inr npos)"
  by pat_completeness auto
termination
  by (relation "measure (\<lambda>(s, c, len, j). len - j)") auto

definition find_c :: "ustring \<Rightarrow> uint16_t \<Rightarrow> nat \<Rightarrow> error + nat" where
  "find_c s c pos = find_c_loop s c (length_u s) pos"

subsection \<open>Construction\<close>

text \<open>\<^verbatim>\<open>ustring::ustring() { _str.push_back(0); }\<close>\<close>

definition ustring_default :: ustring where
  "ustring_default = \<lparr>str = [] @ [0]\<rparr>"

text \<open>
  \<^verbatim>\<open>ustring::ustring(const uint16_t *s)\<close>. The argument is \<open>None\<close> for the null pointer and
  otherwise the units of the array it points into, from the element pointed to up to the
  end of the array; reading past that end is \<open>OutOfBounds\<close>. The first loop counts the
  units before the first zero (\<^verbatim>\<open>while(s[i] != 0) ++i;\<close>), the second copies them
  (\<^verbatim>\<open>while(*s != 0) { _str.push_back(*s); ++s; }\<close>), walking the pointer.
\<close>

function count_loop :: "uint16_t list \<Rightarrow> nat \<Rightarrow> error + nat" where
  "count_loop mem i =
     (case vec_at mem i of
        Inl e \<Rightarrow> Inl e
      | Inr u \<Rightarrow> if u \<noteq> 0 then count_loop mem (i + 1) else Inr i)"
  by pat_completeness auto
termination
  by (relation "measure (\<lambda>(mem, i). length mem - i)")
     (auto simp: vec_at_def split: if_splits)

fun copy_loop :: "'a::zero list \<Rightarrow> 'a list \<Rightarrow> error + 'a list" where
  "copy_loop [] acc = Inl OutOfBounds"
| "copy_loop (u # mem) acc = (if u \<noteq> 0 then copy_loop mem (acc @ [u]) else Inr acc)"

definition ustring_from_ptr :: "uint16_t list option \<Rightarrow> error + ustring" where
  "ustring_from_ptr p =
     (case p of
        None \<Rightarrow> Inr \<lparr>str = [] @ [0]\<rparr>
      | Some mem \<Rightarrow>
          (case count_loop mem 0 of
             Inl e \<Rightarrow> Inl e
           | Inr i \<Rightarrow>
               (case copy_loop mem [] of
                  Inl e \<Rightarrow> Inl e
                | Inr v \<Rightarrow> Inr \<lparr>str = v @ [0]\<rparr>)))"

subsection \<open>Substring\<close>

text \<open>
  \<^verbatim>\<open>substr(pos, n)\<close>: the test \<^verbatim>\<open>pos + n > len\<close> adds two \<^verbatim>\<open>size_t\<close> values and wraps;
  \<^verbatim>\<open>reserve(n + 1)\<close> throws \<^verbatim>\<open>std::length_error\<close> above \<open>max_size\<close>; the iterator range
  \<^verbatim>\<open>[begin() + pos, begin() + pos + n)\<close> given to \<^verbatim>\<open>assign\<close> must lie inside the storage.
\<close>

definition substr :: "ustring \<Rightarrow> nat \<Rightarrow> nat \<Rightarrow> error + ustring" where
  "substr s pos n =
     (let len = length_u s in
      if pos \<ge> len then Inl OutOfRange
      else
        let n = (if n = SIZE_MAX \<or> size_add pos n > len then len - pos else n) in
        if size_add n 1 > max_size then Inl LengthError
        else if pos + n > length (str s) then Inl OutOfBounds
        else Inr \<lparr>str = take n (drop pos (str s)) @ [0]\<rparr>)"

subsection \<open>Appending and concatenation\<close>

text \<open>
  \<^verbatim>\<open>v.insert(v.end() - 1, first, last)\<close>: the iterator \<^verbatim>\<open>v.end() - 1\<close> exists only in a
  vector that is not empty.
\<close>

definition insert_before_last :: "'a list \<Rightarrow> 'a list \<Rightarrow> error + 'a list" where
  "insert_before_last v xs =
     (if v = [] then Inl OutOfBounds else Inr (butlast v @ xs @ [last v]))"

text \<open>\<^verbatim>\<open>operator += (uint16_t c)\<close>: \<^verbatim>\<open>_str.insert(_str.end() - 1, c)\<close>.\<close>

definition operator_plus_assign_c :: "ustring \<Rightarrow> uint16_t \<Rightarrow> error + ustring" where
  "operator_plus_assign_c this c =
     (case insert_before_last (str this) [c] of
        Inl e \<Rightarrow> Inl e
      | Inr v \<Rightarrow> Inr (this\<lparr>str := v\<rparr>))"

text \<open>
  \<^verbatim>\<open>operator += (const ustring &s)\<close>, for an argument that is another object than
  \<^verbatim>\<open>*this\<close>: nothing for an empty \<open>s\<close>, otherwise
  \<^verbatim>\<open>_str.insert(_str.end() - 1, s._str.begin(), s._str.end() - 1)\<close>.
\<close>

definition operator_plus_assign_s :: "ustring \<Rightarrow> ustring \<Rightarrow> error + ustring" where
  "operator_plus_assign_s this s =
     (if empty_u s then Inr this
      else
        (case insert_before_last (str this) (butlast (str s)) of
           Inl e \<Rightarrow> Inl e
         | Inr v \<Rightarrow> Inr (this\<lparr>str := v\<rparr>)))"

text \<open>\<^verbatim>\<open>operator + (const ustring &s)\<close>: \<^verbatim>\<open>ustring temp(*this); return (temp += s);\<close>\<close>

definition operator_plus :: "ustring \<Rightarrow> ustring \<Rightarrow> error + ustring" where
  "operator_plus this s = (let temp = this in operator_plus_assign_s temp s)"

text \<open>\<^verbatim>\<open>operator == (const ustring &s)\<close>: \<^verbatim>\<open>return (s._str == _str);\<close>\<close>

definition operator_eq :: "ustring \<Rightarrow> ustring \<Rightarrow> bool" where
  "operator_eq this s = (str s = str this)"

subsection \<open>Searching for a string\<close>

text \<open>
  The loop of \<^verbatim>\<open>find(const ustring &s, size_t pos)\<close>, with its two counters \<open>j\<close> and
  \<open>chars_found\<close>. The haystack is read with \<^verbatim>\<open>_str[j]\<close>, the pattern with
  \<^verbatim>\<open>s[chars_found]\<close>; the index returned is \<^verbatim>\<open>j - chars_found + 1\<close> in \<^verbatim>\<open>size_t\<close>
  arithmetic.
\<close>

function find_s_loop ::
  "ustring \<Rightarrow> ustring \<Rightarrow> nat \<Rightarrow> nat \<Rightarrow> nat \<Rightarrow> nat \<Rightarrow> error + nat" where
  "find_s_loop this s len total_chars j chars_found =
     (if j < len then
        (case vec_at (str this) j of
           Inl e \<Rightarrow> Inl e
         | Inr u \<Rightarrow>
             (case operator_index s chars_found of
                Inl e \<Rightarrow> Inl e
              | Inr p \<Rightarrow>
                  if u = p then
                    (let chars_found = chars_found + 1 in
                     if chars_found = total_chars
                     then Inr (size_add (size_sub j chars_found) 1)
                     else find_s_loop this s len total_chars (j + 1) chars_found)
                  else find_s_loop this s len total_chars (j + 1) 0))
      else Inr npos)"
  by pat_completeness auto
termination
  by (relation "measure (\<lambda>(this, s, len, total_chars, j, chars_found). len - j)") auto

definition find_s :: "ustring \<Rightarrow> ustring \<Rightarrow> nat \<Rightarrow> error + nat" where
  "find_s this s pos = find_s_loop this s (length_u this) (length_u s) pos 0"

subsection \<open>The buffers a client can build\<close>

text \<open>
  The values reachable through the constructors and the operations that return or modify
  a \<^verbatim>\<open>ustring\<close>, whenever the operation returns.
\<close>

inductive constructible :: "ustring \<Rightarrow> bool" where
  by_default: "constructible ustring_default"
| by_pointer: "ustring_from_ptr p = Inr s \<Longrightarrow> constructible s"
| by_substr: "constructible s \<Longrightarrow> substr s pos n = Inr t \<Longrightarrow> constructible t"
| by_plus: "constructible a \<Longrightarrow> constructible b \<Longrightarrow> operator_plus a b = Inr t \<Longrightarrow>
    constructible t"
| by_append_c: "constructible s \<Longrightarrow> operator_plus_assign_c s c = Inr t \<Longrightarrow> constructible t"
| by_append_s: "constructible a \<Longrightarrow> constructible b \<Longrightarrow> operator_plus_assign_s a b = Inr t \<Longrightarrow>
    constructible t"

section \<open>The conversion functions\<close>

subsection \<open>What the build and the platform fix\<close>

text \<open>
  Four things are not in \<^verbatim>\<open>ustring.cpp\<close> and are parameters of the model: the macro
  \<^verbatim>\<open>SDL_BYTEORDER\<close> of \<^verbatim>\<open>SDL_endian.h\<close>, which selects the byte-swapping block of
  \<^verbatim>\<open>MakeUnicodeString\<close> at compile time; whether plain \<^verbatim>\<open>char\<close> is signed, which decides
  how \<^verbatim>\<open>text[c]\<close> converts to \<^verbatim>\<open>uint16_t\<close>; how many elements more than the \<open>n\<close> asked
  for the constructor \<^verbatim>\<open>std::vector<uint16_t>(n, 0)\<close> allocates (none in libstdc++, libc++
  and the MSVC library; the standard sets no bound); and the transcoder behind
  \<^verbatim>\<open>iconv_open\<close> and \<^verbatim>\<open>iconv\<close>. A transcoder is a function from the bytes it is given (the
  text and its terminating zero byte) to what the two calls do: \<^verbatim>\<open>iconv_open\<close> fails, or
  \<^verbatim>\<open>iconv\<close> returns \<open>-1\<close> after having written some units, or \<^verbatim>\<open>iconv\<close> succeeds
  having written the units of the converted text.
\<close>

datatype iconv_result =
  OpenFailed
| ConvFailed "uint16_t list"
| Converted "uint16_t list"

record host =
  big_endian :: bool
  char_signed :: bool
  vector_slack :: nat
  iconv :: "byte list \<Rightarrow> iconv_result"

text \<open>
  \<^verbatim>\<open>iconv\<close> is given \<^verbatim>\<open>destLen = (source.length() + 1) * 2\<close> bytes, the whole of \<open>dest\<close>, and
  never writes more: the units written replace the front of \<open>dest\<close>.
\<close>

definition iconv_store :: "uint16_t list \<Rightarrow> uint16_t list \<Rightarrow> uint16_t list" where
  "iconv_store ws dest = take (length dest) ws @ drop (length ws) dest"

definition UTF8ToUTF16 :: "host \<Rightarrow> byte list \<Rightarrow> uint16_t list \<Rightarrow> bool \<times> uint16_t list" where
  "UTF8ToUTF16 h source dest =
     (if source = [] then (True, dest)
      else
        (case iconv h (source @ [0]) of
           OpenFailed \<Rightarrow> (False, dest)
         | ConvFailed ws \<Rightarrow> (False, iconv_store ws dest)
         | Converted ws \<Rightarrow> (True, iconv_store ws dest)))"

subsection \<open>The buffer of \<^verbatim>\<open>MakeUnicodeString\<close> and the pointer into it\<close>

text \<open>
  \<^verbatim>\<open>MakeUnicodeString\<close> keeps a raw pointer \<^verbatim>\<open>utf16String\<close> into the vector \<^verbatim>\<open>ubuff\<close>
  while it appends to the vector, so the model of the vector has its capacity and the
  identity of its storage block: \<^verbatim>\<open>push_back\<close> on a full vector moves the elements to a
  new block, and a pointer into the old block dangles. After \<^verbatim>\<open>std::vector<uint16_t>
  ubuff(length, 0)\<close> the capacity is at least \<open>length\<close>, so the following
  \<^verbatim>\<open>ubuff.reserve(length)\<close> changes nothing.
\<close>

record uvector =
  elems :: "uint16_t list"
  capacity :: nat
  block :: nat

definition push_back :: "uvector \<Rightarrow> uint16_t \<Rightarrow> uvector" where
  "push_back v x =
     (if length (elems v) < capacity v then v\<lparr>elems := elems v @ [x]\<rparr>
      else \<lparr>elems = elems v @ [x], capacity = max 1 (2 * capacity v), block = block v + 1\<rparr>)"

text \<open>
  \<^verbatim>\<open>text[c]\<close> on a \<^verbatim>\<open>const std::string\<close>: the byte at \<open>c\<close>, and the zero \<^verbatim>\<open>char\<close> at
  \<^verbatim>\<open>c == text.length()\<close>.
\<close>

definition string_at :: "byte list \<Rightarrow> nat \<Rightarrow> error + byte" where
  "string_at text c =
     (if c < length text then Inr (text ! c)
      else if c = length text then Inr 0
      else Inl OutOfBounds)"

text \<open>The conversion of a \<^verbatim>\<open>char\<close> to \<^verbatim>\<open>uint16_t\<close>.\<close>

definition char_to_uint16 :: "host \<Rightarrow> byte \<Rightarrow> uint16_t" where
  "char_to_uint16 h b = (if char_signed h then scast b else ucast b)"

text \<open>
  The block under \<^verbatim>\<open>#if SDL_BYTEORDER == SDL_BIG_ENDIAN\<close>:
  \<^verbatim>\<open>for(size_t c = 0; c < length; ++c) if(utf16String[c] & 0xFF80) utf16String[c] =
  (utf16String[c] << 8) | (utf16String[c] >> 8);\<close> with \<^verbatim>\<open>utf16String\<close> at offset \<open>off\<close> of
  the buffer.
\<close>

function swap_loop :: "uint16_t list \<Rightarrow> nat \<Rightarrow> nat \<Rightarrow> nat \<Rightarrow> error + uint16_t list" where
  "swap_loop buf off len c =
     (if c < len then
        (case vec_at buf (off + c) of
           Inl e \<Rightarrow> Inl e
         | Inr u \<Rightarrow>
             if u AND 0xFF80 \<noteq> 0
             then swap_loop (buf[off + c := push_bit 8 u OR drop_bit 8 u]) off len (c + 1)
             else swap_loop buf off len (c + 1))
      else Inr buf)"
  by pat_completeness auto
termination
  by (relation "measure (\<lambda>(buf, off, len, c). len - c)") auto

text \<open>
  The \<^verbatim>\<open>else\<close> branch:
  \<^verbatim>\<open>for(size_t c = 0; c < length; ++c) { ubuff.push_back(text[c]); }\<close>
\<close>

function widen_loop :: "host \<Rightarrow> byte list \<Rightarrow> uvector \<Rightarrow> nat \<Rightarrow> nat \<Rightarrow> error + uvector" where
  "widen_loop h text ubuff len c =
     (if c < len then
        (case string_at text c of
           Inl e \<Rightarrow> Inl e
         | Inr b \<Rightarrow> widen_loop h text (push_back ubuff (char_to_uint16 h b)) len (c + 1))
      else Inr ubuff)"
  by pat_completeness auto
termination
  by (relation "measure (\<lambda>(h, text, ubuff, len, c). len - c)") auto

text \<open>
  \<^verbatim>\<open>ustring new_ustr(utf16String)\<close>: the pointer was taken in block \<open>blk\<close> at offset
  \<open>off\<close>; it can be read only while the vector still lives in that block.
\<close>

definition ustring_at_pointer :: "uvector \<Rightarrow> nat \<Rightarrow> nat \<Rightarrow> error + ustring" where
  "ustring_at_pointer ubuff blk off =
     (if block ubuff \<noteq> blk then Inl DanglingPointer
      else ustring_from_ptr (Some (drop off (elems ubuff))))"

definition MakeUnicodeString :: "host \<Rightarrow> byte list \<Rightarrow> error + ustring" where
  "MakeUnicodeString h text =
     (let len = length text + 1;
          ubuff = \<lparr>elems = replicate len 0, capacity = len + vector_slack h, block = 0\<rparr>;
          blk = block ubuff;
          (ok, dest) = UTF8ToUTF16 h text (elems ubuff);
          ubuff = ubuff\<lparr>elems := dest\<rparr>
      in
        if ok then
          (case vec_at (elems ubuff) 0 of
             Inl e \<Rightarrow> Inl e
           | Inr u0 \<Rightarrow>
               (let off = (if u0 = 0xFEFF \<or> u0 = 0xFFFE then 1 else 0) in
                if big_endian h then
                  (case swap_loop (elems ubuff) off len 0 of
                     Inl e \<Rightarrow> Inl e
                   | Inr buf \<Rightarrow> ustring_at_pointer (ubuff\<lparr>elems := buf\<rparr>) blk off)
                else ustring_at_pointer ubuff blk off))
        else
          (case widen_loop h text ubuff len 0 of
             Inl e \<Rightarrow> Inl e
           | Inr ubuff \<Rightarrow> ustring_at_pointer (push_back ubuff 0) blk 0))"

subsection \<open>\<^verbatim>\<open>MakeStandardString\<close>\<close>

text \<open>
  The loop writes \<^verbatim>\<open>strbuff[c]\<close> for every \<^verbatim>\<open>c < length\<close>: \<^verbatim>\<open>'?'\<close> (byte \<open>0x3F\<close>) for a
  unit above \<open>0xff\<close>, the unit cast to \<^verbatim>\<open>unsigned char\<close> otherwise. The result is
  \<^verbatim>\<open>std::string(reinterpret_cast<char *>(&strbuff[0]))\<close>, the constructor from a C
  string, which copies the bytes before the first zero byte.
\<close>

function narrow_loop :: "ustring \<Rightarrow> nat \<Rightarrow> byte list \<Rightarrow> nat \<Rightarrow> error + byte list" where
  "narrow_loop text len strbuff c =
     (if c < len then
        (case operator_index text c of
           Inl e \<Rightarrow> Inl e
         | Inr curr_char \<Rightarrow>
             if c < length strbuff then
               narrow_loop text len
                 (strbuff[c := (if curr_char > 0xff then 0x3F else ucast curr_char)]) (c + 1)
             else Inl OutOfBounds)
      else Inr strbuff)"
  by pat_completeness auto
termination
  by (relation "measure (\<lambda>(text, len, strbuff, c). len - c)") auto

definition MakeStandardString :: "ustring \<Rightarrow> error + byte list" where
  "MakeStandardString text =
     (let len = length_u text;
          strbuff = replicate (len + 1) 0
      in
        (case narrow_loop text len strbuff 0 of
           Inl e \<Rightarrow> Inl e
         | Inr strbuff \<Rightarrow> copy_loop strbuff []))"

text \<open>
  The per-unit rule in the words of the spec, for comparison with the loop: "if its value
  exceeds the single-byte-safe range (> 0xFF), substitute a replacement character (\<open>?\<close>);
  otherwise narrow it to one byte".
\<close>

definition replace_or_narrow :: "uint16_t \<Rightarrow> byte" where
  "replace_or_narrow u = (if u > 0xFF then 0x3F else ucast u)"

section \<open>Properties\<close>

lemma operator_index_logical:
  "k < length_u s \<Longrightarrow> operator_index s k = Inr (str s ! k)"
  by (simp add: operator_index_def)

subsection \<open>Storage, units and the invariant\<close>

lemma invariant_str: "invariant s \<Longrightarrow> str s = units s @ [0]"
  using append_butlast_last_id [of "str s"] by (simp add: invariant_def units_def)

lemma length_u_units: "length_u s = length (units s)"
  by (simp add: length_u_def units_def)

lemma empty_u_units: "empty_u s = (units s = [])"
  by (simp add: empty_u_def length_u_units)

subsection \<open>The loops that stop at a zero\<close>

lemma copy_loop_result:
  "copy_loop mem acc =
     (if 0 \<in> set mem then Inr (acc @ takeWhile (\<lambda>u. u \<noteq> 0) mem) else Inl OutOfBounds)"
  by (induction mem arbitrary: acc) auto

lemma count_loop_returns:
  "0 \<in> set (drop i mem) \<Longrightarrow> \<exists>n. count_loop mem i = Inr n"
proof (induction mem i rule: count_loop.induct)
  case (1 mem i)
  then have i: "i < length mem" by (cases "i < length mem") auto
  show ?case
  proof (cases "mem ! i = 0")
    case True
    with i show ?thesis by (simp add: vec_at_def)
  next
    case False
    from i have "drop i mem = mem ! i # drop (i + 1) mem"
      by (simp add: Cons_nth_drop_Suc)
    with 1(2) False have "0 \<in> set (drop (i + 1) mem)" by auto
    with 1(1) [of "mem ! i"] i False show ?thesis by (simp add: vec_at_def)
  qed
qed

lemma ustring_from_ptr_terminated:
  "0 \<in> set mem \<Longrightarrow>
   ustring_from_ptr (Some mem) = Inr \<lparr>str = takeWhile (\<lambda>u. u \<noteq> 0) mem @ [0]\<rparr>"
  using count_loop_returns [of 0 mem]
  by (auto simp: ustring_from_ptr_def copy_loop_result)

subsection \<open>Each operation and the invariant\<close>

lemma ustring_from_ptr_invariant:
  "ustring_from_ptr p = Inr s \<Longrightarrow> invariant s"
  by (auto simp: ustring_from_ptr_def invariant_def split: option.splits sum.splits)

lemma substr_invariant:
  "substr s pos n = Inr t \<Longrightarrow> invariant t"
  by (auto simp: substr_def invariant_def Let_def split: if_splits)

lemma operator_plus_assign_c_result:
  "invariant s \<Longrightarrow> operator_plus_assign_c s c = Inr \<lparr>str = units s @ [c, 0]\<rparr>"
  by (simp add: operator_plus_assign_c_def insert_before_last_def invariant_def units_def)

lemma operator_plus_assign_s_result:
  "invariant a \<Longrightarrow>
   operator_plus_assign_s a b =
     Inr (if empty_u b then a else \<lparr>str = units a @ units b @ [0]\<rparr>)"
  by (simp add: operator_plus_assign_s_def insert_before_last_def invariant_def units_def)

lemma operator_plus_assign_s_units:
  assumes "invariant a"
  shows "operator_plus_assign_s a b = Inr \<lparr>str = units a @ units b @ [0]\<rparr>"
proof (cases "empty_u b")
  case True
  then have "units b = []" by (simp add: empty_u_units)
  with assms True invariant_str [of a] show ?thesis
    by (simp add: operator_plus_assign_s_result)
next
  case False
  with assms show ?thesis by (simp add: operator_plus_assign_s_result)
qed

lemma constructible_invariant: "constructible s \<Longrightarrow> invariant s"
proof (induction rule: constructible.induct)
  case by_default
  show ?case by (simp add: ustring_default_def invariant_def)
next
  case (by_pointer p s)
  then show ?case by (rule ustring_from_ptr_invariant)
next
  case (by_substr s pos n t)
  then show ?case by (auto intro: substr_invariant)
next
  case (by_plus a b t)
  then show ?case
    by (auto simp: operator_plus_def operator_plus_assign_s_units invariant_def)
next
  case (by_append_c s c t)
  then show ?case by (auto simp: operator_plus_assign_c_result invariant_def)
next
  case (by_append_s a b t)
  then show ?case by (auto simp: operator_plus_assign_s_units invariant_def)
qed

subsection \<open>Searching\<close>

lemma find_c_loop_absent:
  "len \<le> length (str s) \<Longrightarrow> (\<And>k. j \<le> k \<Longrightarrow> k < len \<Longrightarrow> str s ! k \<noteq> c) \<Longrightarrow>
   find_c_loop s c len j = Inr npos"
proof (induction s c len j rule: find_c_loop.induct)
  case (1 s c len j)
  show ?case
  proof (cases "j < len")
    case True
    with 1 show ?thesis by (simp add: vec_at_def)
  next
    case False
    then show ?thesis by simp
  qed
qed

lemma find_c_loop_first:
  "len \<le> length (str s) \<Longrightarrow> j \<le> k \<Longrightarrow> k < len \<Longrightarrow> str s ! k = c \<Longrightarrow>
   (\<And>i. j \<le> i \<Longrightarrow> i < k \<Longrightarrow> str s ! i \<noteq> c) \<Longrightarrow>
   find_c_loop s c len j = Inr k"
proof (induction s c len j rule: find_c_loop.induct)
  case (1 s c len j)
  show ?case
  proof (cases "j = k")
    case True
    with 1 show ?thesis by (simp add: vec_at_def)
  next
    case False
    with 1 have "j < k" "str s ! j \<noteq> c" by auto
    with 1 show ?thesis by (simp add: vec_at_def)
  qed
qed

text \<open>
  C9. For every buffer, unit \<open>c\<close> and start position \<open>pos\<close>:
  \<^verbatim>\<open>find(c, pos)\<close> returns the smallest index \<open>k\<close> with \<open>pos \<le> k < length()\<close> whose
  unit is \<open>c\<close> when there is one, and \<open>npos\<close> when there is none.
\<close>

theorem find_c_first_index_or_npos:
  "(\<forall>k. pos \<le> k \<and> k < length_u s \<and> operator_index s k = Inr c \<and>
        (\<forall>i. pos \<le> i \<and> i < k \<longrightarrow> operator_index s i \<noteq> Inr c)
        \<longrightarrow> find_c s c pos = Inr k) \<and>
   ((\<forall>k. pos \<le> k \<and> k < length_u s \<longrightarrow> operator_index s k \<noteq> Inr c)
        \<longrightarrow> find_c s c pos = Inr npos)"
proof (intro conjI allI impI)
  fix k
  assume h: "pos \<le> k \<and> k < length_u s \<and> operator_index s k = Inr c \<and>
    (\<forall>i. pos \<le> i \<and> i < k \<longrightarrow> operator_index s i \<noteq> Inr c)"
  then have k: "k < length (str s)" and len: "length_u s \<le> length (str s)"
    by (auto simp: length_u_def)
  from h have "str s ! k = c"
    using operator_index_logical [of k s] by simp
  moreover have "str s ! i \<noteq> c" if "pos \<le> i" "i < k" for i
    using h that operator_index_logical [of i s] by auto
  ultimately show "find_c s c pos = Inr k"
    unfolding find_c_def using h len by (intro find_c_loop_first) auto
next
  assume h: "\<forall>k. pos \<le> k \<and> k < length_u s \<longrightarrow> operator_index s k \<noteq> Inr c"
  have "str s ! k \<noteq> c" if "pos \<le> k" "k < length_u s" for k
    using h that operator_index_logical [of k s] by auto
  then show "find_c s c pos = Inr npos"
    unfolding find_c_def by (intro find_c_loop_absent) (auto simp: length_u_def)
qed

theorem find_c_first_index_or_npos_witness:
  "find_c \<lparr>str = [0x61, 0x62, 0x61, 0]\<rparr> 0x61 1 = Inr 2 \<and>
   find_c \<lparr>str = [0x61, 0x62, 0x61, 0]\<rparr> 0x63 1 = Inr npos"
proof -
  let ?s = "\<lparr>str = [0x61, 0x62, 0x61, 0 :: uint16_t]\<rparr>"
  have a: "(1::nat) \<le> 2 \<and> 2 < length_u ?s \<and> operator_index ?s 2 = Inr 0x61 \<and>
    (\<forall>i. 1 \<le> i \<and> i < 2 \<longrightarrow> operator_index ?s i \<noteq> Inr 0x61)"
  proof (intro conjI allI impI)
    fix i :: nat assume "1 \<le> i \<and> i < 2"
    then have "i = 1" by simp
    then show "operator_index ?s i \<noteq> Inr 0x61"
      by (simp add: operator_index_def length_u_def)
  qed (simp_all add: length_u_def operator_index_def)
  have b: "\<forall>k. 1 \<le> k \<and> k < length_u ?s \<longrightarrow> operator_index ?s k \<noteq> Inr 0x63"
  proof (intro allI impI)
    fix k :: nat assume "1 \<le> k \<and> k < length_u ?s"
    then have "k = 1 \<or> k = 2" by (auto simp: length_u_def)
    then show "operator_index ?s k \<noteq> Inr 0x63"
      by (auto simp: operator_index_def length_u_def)
  qed
  from find_c_first_index_or_npos [of 1 ?s "0x61"] a
  have "find_c ?s 0x61 1 = Inr 2" by blast
  moreover from find_c_first_index_or_npos [of 1 ?s "0x63"] b
  have "find_c ?s 0x63 1 = Inr npos" by blast
  ultimately show ?thesis by simp
qed

text \<open>
  C4. Every buffer that can be built through the public interface satisfies the
  invariant (the storage is not empty and its last element is the sentinel \<open>0\<close>), and
  each operation keeps it: default and pointer construction and \<open>substr\<close> establish it on
  whatever they return, and \<open>operator +\<close> and the two \<open>operator +=\<close> return, on buffers
  that satisfy it, a buffer that satisfies it. (\<open>operator_plus_assign_s\<close> is the call with
  an argument that is another object than the one appended to.)
\<close>

theorem invariant_established_and_preserved:
  "(\<forall>s. constructible s \<longrightarrow> invariant s) \<and>
   invariant ustring_default \<and>
   (\<forall>p s. ustring_from_ptr p = Inr s \<longrightarrow> invariant s) \<and>
   (\<forall>s pos n t. substr s pos n = Inr t \<longrightarrow> invariant t) \<and>
   (\<forall>a b. invariant a \<longrightarrow> (\<exists>t. operator_plus a b = Inr t \<and> invariant t)) \<and>
   (\<forall>s c. invariant s \<longrightarrow> (\<exists>t. operator_plus_assign_c s c = Inr t \<and> invariant t)) \<and>
   (\<forall>a b. invariant a \<longrightarrow> (\<exists>t. operator_plus_assign_s a b = Inr t \<and> invariant t))"
proof (intro conjI allI impI)
  show "invariant ustring_default"
    by (simp add: ustring_default_def invariant_def)
next
  fix a b assume "invariant a"
  then show "\<exists>t. operator_plus a b = Inr t \<and> invariant t"
    by (simp add: operator_plus_def operator_plus_assign_s_units invariant_def)
next
  fix s c assume "invariant s"
  then show "\<exists>t. operator_plus_assign_c s c = Inr t \<and> invariant t"
    by (simp add: operator_plus_assign_c_result invariant_def)
next
  fix a b assume "invariant a"
  then show "\<exists>t. operator_plus_assign_s a b = Inr t \<and> invariant t"
    by (simp add: operator_plus_assign_s_units invariant_def)
qed (auto intro: constructible_invariant ustring_from_ptr_invariant substr_invariant)

theorem invariant_established_and_preserved_witness:
  "constructible \<lparr>str = [0x62, 0x63, 0]\<rparr> \<and> invariant \<lparr>str = [0x62, 0x63, 0]\<rparr> \<and>
   ustring_from_ptr (Some [0x61, 0x62, 0x63, 0, 0x64]) = Inr \<lparr>str = [0x61, 0x62, 0x63, 0]\<rparr> \<and>
   invariant \<lparr>str = [0x61, 0x62, 0x63, 0]\<rparr> \<and>
   substr \<lparr>str = [0x61, 0x62, 0x63, 0]\<rparr> 1 5 = Inr \<lparr>str = [0x62, 0x63, 0]\<rparr> \<and>
   (\<exists>t. operator_plus \<lparr>str = [0x61, 0x62, 0x63, 0]\<rparr> \<lparr>str = [0x62, 0x63, 0]\<rparr> = Inr t \<and>
        invariant t) \<and>
   (\<exists>t. operator_plus_assign_c \<lparr>str = [0x61, 0x62, 0x63, 0]\<rparr> 0x64 = Inr t \<and> invariant t) \<and>
   (\<exists>t. operator_plus_assign_s \<lparr>str = [0x61, 0x62, 0x63, 0]\<rparr> \<lparr>str = [0x62, 0x63, 0]\<rparr> = Inr t \<and>
        invariant t)"
proof -
  let ?abc = "\<lparr>str = [0x61, 0x62, 0x63, 0 :: uint16_t]\<rparr>"
  let ?bc = "\<lparr>str = [0x62, 0x63, 0 :: uint16_t]\<rparr>"
  note inv = invariant_established_and_preserved
  have p: "ustring_from_ptr (Some [0x61, 0x62, 0x63, 0, 0x64]) = Inr ?abc"
    by (simp add: ustring_from_ptr_terminated)
  have s: "substr ?abc 1 5 = Inr ?bc"
    by (simp add: substr_def length_u_def SIZE_MAX_def size_add_def max_size_def)
  from p have c1: "constructible ?abc" by (rule by_pointer)
  from c1 s have c2: "constructible ?bc" by (rule by_substr)
  from inv c2 have i2: "invariant ?bc" by blast
  from inv p have i1: "invariant ?abc" by blast
  from inv i1 have
    "\<exists>t. operator_plus ?abc ?bc = Inr t \<and> invariant t"
    "\<exists>t. operator_plus_assign_c ?abc 0x64 = Inr t \<and> invariant t"
    "\<exists>t. operator_plus_assign_s ?abc ?bc = Inr t \<and> invariant t"
    by blast+
  with c2 i2 p i1 s show ?thesis by blast
qed

text \<open>
  C7. For all buffers \<open>a\<close> and \<open>b\<close>, \<open>a + b\<close> has logical length
  \<open>length(a) + length(b)\<close> and its units are those of \<open>a\<close> followed by those of \<open>b\<close>;
  appending an empty buffer to \<open>a\<close> gives a buffer equal to \<open>a\<close>.
\<close>

theorem concatenation_length_and_content:
  "invariant a \<Longrightarrow> invariant b \<Longrightarrow>
   (\<exists>t. operator_plus a b = Inr t \<and>
        length_u t = length_u a + length_u b \<and>
        units t = units a @ units b) \<and>
   (empty_u b \<longrightarrow>
     (\<exists>t. operator_plus_assign_s a b = Inr t \<and> operator_eq t a) \<and>
     (\<exists>t. operator_plus a b = Inr t \<and> operator_eq t a))"
proof -
  assume a: "invariant a" and b: "invariant b"
  let ?t = "\<lparr>str = units a @ units b @ [0]\<rparr>"
  have plus: "operator_plus a b = Inr ?t"
    using a by (simp add: operator_plus_def operator_plus_assign_s_units)
  have u: "units ?t = units a @ units b"
    using butlast_snoc [of "units a @ units b" 0] by (simp add: units_def)
  then have l: "length_u ?t = length_u a + length_u b"
    by (simp only: length_u_units length_append)
  have e: "operator_eq ?t a" if "empty_u b"
    using that invariant_str [OF a] by (simp add: empty_u_units operator_eq_def)
  have "operator_plus_assign_s a b = Inr ?t"
    using a by (rule operator_plus_assign_s_units)
  with plus u l e show ?thesis by simp
qed

theorem concatenation_length_and_content_witness:
  "operator_plus \<lparr>str = [0x61, 0x62, 0]\<rparr> \<lparr>str = [0x63, 0]\<rparr> = Inr \<lparr>str = [0x61, 0x62, 0x63, 0]\<rparr> \<and>
   length_u \<lparr>str = [0x61, 0x62, 0x63, 0]\<rparr> = 2 + 1 \<and>
   operator_plus_assign_s \<lparr>str = [0x61, 0x62, 0]\<rparr> ustring_default = Inr \<lparr>str = [0x61, 0x62, 0]\<rparr> \<and>
   operator_eq \<lparr>str = [0x61, 0x62, 0]\<rparr> \<lparr>str = [0x61, 0x62, 0]\<rparr>"
proof -
  let ?ab = "\<lparr>str = [0x61, 0x62, 0 :: uint16_t]\<rparr>"
  let ?c = "\<lparr>str = [0x63, 0 :: uint16_t]\<rparr>"
  have i: "invariant ?ab" "invariant ?c" "invariant ustring_default"
    by (simp_all add: invariant_def ustring_default_def)
  have e: "empty_u ustring_default"
    by (simp add: empty_u_def length_u_def ustring_default_def)
  from concatenation_length_and_content [OF i(1) i(2)]
  obtain t where t: "operator_plus ?ab ?c = Inr t" "units t = units ?ab @ units ?c"
    by blast
  from concatenation_length_and_content [OF i(1) i(3)] e
  obtain t' where t': "operator_plus_assign_s ?ab ustring_default = Inr t'" "operator_eq t' ?ab"
    by blast
  have "operator_plus ?ab ?c = Inr \<lparr>str = [0x61, 0x62, 0x63, 0]\<rparr>"
    using t(1)
    by (simp add: operator_plus_def operator_plus_assign_s_def insert_before_last_def
        empty_u_def length_u_def)
  moreover have "operator_plus_assign_s ?ab ustring_default = Inr ?ab"
    using t'(1) by (simp add: operator_plus_assign_s_def e)
  ultimately show ?thesis
    by (simp add: length_u_def operator_eq_def)
qed

text \<open>
  The loop reads \<^verbatim>\<open>s[chars_found]\<close> before any test of the pattern's length, and compares
  \<^verbatim>\<open>chars_found\<close> with \<^verbatim>\<open>total_chars\<close> only after a match has incremented the counter.
  With an empty pattern the first iteration reads \<^verbatim>\<open>s[0]\<close>, at index \<open>length()\<close> of the
  pattern, where \<^verbatim>\<open>operator[]\<close> is undefined; from a start position at or after the end
  of the haystack no iteration runs and the result is \<open>npos\<close>.
\<close>

lemma find_s_empty_pattern:
  "empty_u s \<Longrightarrow>
   find_s this s pos = (if pos < length_u this then Inl OutOfBounds else Inr npos)"
proof -
  assume "empty_u s"
  then have e: "length_u s = 0" by (simp add: empty_u_def)
  show ?thesis
  proof (cases "pos < length_u this")
    case True
    then have "pos < length (str this)" by (simp add: length_u_def)
    with True e show ?thesis
      unfolding find_s_def
      by (subst find_s_loop.simps) (simp add: vec_at_def operator_index_def)
  next
    case False
    then show ?thesis
      unfolding find_s_def by (subst find_s_loop.simps) simp
  qed
qed

text \<open>
  C1. The claim: in a non-empty haystack, for every \<open>pos \<le> length()\<close>, \<open>find\<close> with
  an empty pattern returns \<open>pos\<close>. The code, on the haystack \<open>abc\<close>: for \<open>pos = 3\<close>
  the loop does not run and the result is \<open>npos\<close>; for \<open>pos = 0\<close> the result is not
  \<open>0\<close> either.
\<close>

theorem find_s_empty_pattern_not_found:
  "\<not> empty_u \<lparr>str = [0x61, 0x62, 0x63, 0]\<rparr> \<and>
   empty_u ustring_default \<and>
   (3::nat) \<le> length_u \<lparr>str = [0x61, 0x62, 0x63, 0]\<rparr> \<and>
   find_s \<lparr>str = [0x61, 0x62, 0x63, 0]\<rparr> ustring_default 3 = Inr npos \<and>
   npos \<noteq> 3 \<and>
   find_s \<lparr>str = [0x61, 0x62, 0x63, 0]\<rparr> ustring_default 0 \<noteq> Inr 0"
proof -
  have e: "empty_u ustring_default"
    by (simp add: empty_u_def length_u_def ustring_default_def)
  from find_s_empty_pattern [OF e, of "\<lparr>str = [0x61, 0x62, 0x63, 0]\<rparr>"]
  show ?thesis
    using e by (simp add: empty_u_def length_u_def npos_def SIZE_MAX_def)
qed

text \<open>
  The reset on a mismatch does not compare the mismatching unit with the start of the
  pattern: for any two different units \<open>A\<close> and \<open>B\<close>, the pattern \<open>[A, B]\<close> is not
  found in \<open>[A, A, B]\<close>.
\<close>

lemma find_s_resets_without_recheck:
  "A \<noteq> B \<Longrightarrow>
   find_s \<lparr>str = [A, A, B, 0]\<rparr> \<lparr>str = [A, B, 0]\<rparr> 0 = Inr npos \<and> npos \<noteq> 1"
proof -
  assume ne: "A \<noteq> B"
  let ?h = "\<lparr>str = [A, A, B, 0]\<rparr>" and ?p = "\<lparr>str = [A, B, 0]\<rparr>"
  have len: "length_u ?h = 3" "length_u ?p = 2"
    by (simp_all add: length_u_def)
  have end_of_scan: "find_s_loop ?h ?p 3 2 3 0 = Inr npos"
    by (subst find_s_loop.simps) simp
  have third: "find_s_loop ?h ?p 3 2 2 0 = find_s_loop ?h ?p 3 2 3 0"
    using ne by (subst find_s_loop.simps) (auto simp: vec_at_def operator_index_def length_u_def)
  have second: "find_s_loop ?h ?p 3 2 1 1 = find_s_loop ?h ?p 3 2 2 0"
    using ne by (subst find_s_loop.simps) (simp add: vec_at_def operator_index_def length_u_def)
  have first: "find_s_loop ?h ?p 3 2 0 0 = find_s_loop ?h ?p 3 2 1 1"
    by (subst find_s_loop.simps) (simp add: vec_at_def operator_index_def length_u_def)
  have "find_s ?h ?p 0 = Inr npos"
    unfolding find_s_def len first second third end_of_scan ..
  then show ?thesis by (simp add: npos_def SIZE_MAX_def)
qed

text \<open>
  C2. The claim: in the haystack \<open>[A, A, B]\<close> the pattern \<open>[A, B]\<close> is found at
  index \<open>1\<close>. The code, at \<open>A = 0x61\<close>, \<open>B = 0x62\<close>: the first \<open>A\<close> matches, the
  second \<open>A\<close> is compared with \<open>B\<close> and resets the counter without being compared
  with the start of the pattern, \<open>B\<close> is compared with \<open>A\<close>, and the loop ends with
  \<open>npos\<close>.
\<close>

theorem find_s_repeated_prefix_missed:
  "find_s \<lparr>str = [0x61, 0x61, 0x62, 0]\<rparr> \<lparr>str = [0x61, 0x62, 0]\<rparr> 0 = Inr npos \<and> npos \<noteq> 1"
  using find_s_resets_without_recheck [of "0x61" "0x62"] by simp

subsection \<open>\<^verbatim>\<open>substr\<close>\<close>

text \<open>
  What \<open>substr\<close> does when the sum \<^verbatim>\<open>pos + n\<close> does not wrap (or \<open>n\<close> is the
  "rest of string" value): it throws \<^verbatim>\<open>std::out_of_range\<close> exactly for
  \<open>pos \<ge> length()\<close>, and otherwise returns the \<open>min n (length() - pos)\<close> units from
  \<open>pos\<close> on.
\<close>

lemma substr_out_of_range_iff:
  "(substr s pos n = Inl OutOfRange) = (pos \<ge> length_u s)"
  by (simp add: substr_def Let_def)

lemma substr_without_wrap:
  assumes pos: "pos < length_u s"
    and fits: "length (str s) \<le> max_size"
    and n: "n = SIZE_MAX \<or> pos + n < 2 ^ 64"
  shows "substr s pos n = Inr \<lparr>str = take (min n (length_u s - pos)) (drop pos (units s)) @ [0]\<rparr>"
proof -
  let ?len = "length_u s"
  let ?n = "if n = SIZE_MAX \<or> size_add pos n > ?len then ?len - pos else n"
  have len: "?len < length (str s)" "?len = length (str s) - 1"
    using pos by (simp_all add: length_u_def)
  have ms: "max_size < 2 ^ 64" by (simp add: max_size_def)
  have clamp: "?n = min n (?len - pos)"
  proof (cases "n = SIZE_MAX")
    case True
    with len fits ms show ?thesis by (simp add: SIZE_MAX_def)
  next
    case False
    with n have "size_add pos n = pos + n" by (simp add: size_add_def)
    with False show ?thesis by auto
  qed
  define m where "m = min n (?len - pos)"
  have le: "m \<le> ?len - pos" by (simp add: m_def)
  have "m + 1 < 2 ^ 64" using le len fits ms by linarith
  then have r: "size_add m 1 = m + 1" by (simp add: size_add_def)
  have a: "\<not> size_add m 1 > max_size"
    using le len fits unfolding r by linarith
  have b: "\<not> pos + m > length (str s)"
    using le len pos by linarith
  have c: "take m (drop pos (str s)) = take m (drop pos (units s))"
    using le len pos by (simp add: units_def butlast_conv_take drop_take min_def)
  have np: "\<not> length_u s \<le> pos" using pos by simp
  have "substr s pos n = Inr \<lparr>str = take m (drop pos (str s)) @ [0]\<rparr>"
    unfolding substr_def Let_def clamp m_def [symmetric] using np a b by simp
  with c show ?thesis by (simp add: m_def)
qed

text \<open>
  When the sum wraps, for every buffer and every \<open>n\<close> other than the "rest of string"
  value: the wrapped sum is below \<open>pos\<close>, the count is not clamped, and
  \<^verbatim>\<open>reserve(n + 1)\<close> throws.
\<close>

lemma substr_wrap_throws:
  "pos < length_u s \<Longrightarrow> length (str s) \<le> max_size \<Longrightarrow>
   n < SIZE_MAX \<Longrightarrow> 2 ^ 64 \<le> pos + n \<Longrightarrow>
   substr s pos n = Inl LengthError"
proof -
  assume pos: "pos < length_u s" and fits: "length (str s) \<le> max_size"
    and n: "n < SIZE_MAX" and wrap: "2 ^ 64 \<le> pos + n"
  have ms: "2 * max_size < 2 ^ 64" by (simp add: max_size_def)
  from pos fits have p: "pos < max_size" by (simp add: length_u_def)
  from n have n64: "n + 1 < 2 ^ 64" by (simp add: SIZE_MAX_def)
  with p ms have "pos + n < 2 * 2 ^ 64" by linarith
  with wrap have "size_add pos n = pos + n - 2 ^ 64"
    unfolding size_add_def by (simp add: mod_if)
  with n64 pos have unclamped: "\<not> size_add pos n > length_u s" by linarith
  from n64 have "size_add n 1 = n + 1" by (simp add: size_add_def)
  with wrap p ms have big: "size_add n 1 > max_size" by linarith
  from n have "n \<noteq> SIZE_MAX" by simp
  with pos unclamped big show ?thesis
    by (simp add: substr_def Let_def)
qed

text \<open>
  C5. The claim: for every \<open>pos < length()\<close> the result has logical length
  \<open>min(n, length() - pos)\<close>. The code, on the buffer \<open>abc\<close> with \<open>pos = 2\<close> and
  \<open>n = 2 ^ 64 - 2\<close>: the sum \<^verbatim>\<open>pos + n\<close> wraps to \<open>0\<close>, the test
  \<^verbatim>\<open>pos + n > len\<close> fails, \<open>n\<close> is not clamped, and \<^verbatim>\<open>reserve(n + 1)\<close> throws
  \<^verbatim>\<open>std::length_error\<close> where the claim has the one-unit buffer \<open>c\<close>.
\<close>

theorem substr_wrapped_count:
  "substr \<lparr>str = [0x61, 0x62, 0x63, 0]\<rparr> 2 (2 ^ 64 - 2) = Inl LengthError"
  using substr_wrap_throws [of 2 "\<lparr>str = [0x61, 0x62, 0x63, 0]\<rparr>" "2 ^ 64 - 2"]
  by (simp add: length_u_def max_size_def SIZE_MAX_def)

subsection \<open>\<^verbatim>\<open>MakeStandardString\<close>\<close>

text \<open>
  The loop fills the buffer with the narrowed units and leaves its last byte zero; the
  C-string constructor then stops at the first zero byte, and a narrowed unit is zero
  exactly when the unit is.
\<close>

lemma replace_or_narrow_zero: "(replace_or_narrow u = 0) = (u = 0)"
proof (cases "u > 0xFF")
  case True
  then have "u \<noteq> 0" by auto
  with True show ?thesis by (simp add: replace_or_narrow_def)
next
  case False
  then have "unat u < 256" by (simp add: word_less_nat_alt not_less word_le_nat_alt)
  then have "unat (ucast u :: byte) = unat u"
    by (simp add: unsigned_ucast_eq take_bit_nat_eq_self)
  then have "((ucast u :: byte) = 0) = (u = 0)"
    by (simp add: unat_eq_0 [symmetric] del: unat_eq_0 unsigned_eq_0_iff)
  with False show ?thesis by (simp add: replace_or_narrow_def)
qed

lemma takeWhile_nonzero_snoc:
  "takeWhile (\<lambda>b. b \<noteq> 0) (xs @ [0]) = takeWhile (\<lambda>b. b \<noteq> 0) xs"
  by (induction xs) simp_all

lemma narrow_loop_result:
  "len < length (str t) \<Longrightarrow> length strbuff = len + 1 \<Longrightarrow> c \<le> len \<Longrightarrow>
   narrow_loop t len strbuff c =
     Inr (take c strbuff @ map replace_or_narrow (take (len - c) (drop c (str t)))
          @ drop len strbuff)"
proof (induction t len strbuff c rule: narrow_loop.induct)
  case (1 t len strbuff c)
  show ?case
  proof (cases "c < len")
    case False
    with 1 show ?thesis by simp
  next
    case True
    let ?v = "if str t ! c > 0xff then 0x3F else ucast (str t ! c) :: byte"
    let ?sb = "strbuff[c := ?v]"
    from True 1 have c: "c < length (str t)" "c < length strbuff" by auto
    from True 1 have "c < length_u t" by (simp add: length_u_def)
    then have oi: "operator_index t c = Inr (str t ! c)"
      by (rule operator_index_logical)
    have step: "narrow_loop t len strbuff c = narrow_loop t len ?sb (c + 1)"
      using True c oi by (subst narrow_loop.simps) simp
    have ih: "narrow_loop t len ?sb (c + 1) =
      Inr (take (c + 1) ?sb @ map replace_or_narrow (take (len - (c + 1)) (drop (c + 1) (str t)))
          @ drop len ?sb)"
      using 1 True c oi by (intro "1.IH") auto
    have t: "take (c + 1) ?sb = take c strbuff @ [?v]"
      using c by (simp add: take_Suc_conv_app_nth)
    have d: "drop len ?sb = drop len strbuff"
      using True by simp
    have m: "take (len - c) (drop c (str t)) =
      str t ! c # take (len - (c + 1)) (drop (c + 1) (str t))"
      using True c by (simp add: Cons_nth_drop_Suc [symmetric] take_Suc_Cons [symmetric] Suc_diff_Suc del: take_Suc_Cons)
    show ?thesis
      unfolding step ih t d m by (simp add: replace_or_narrow_def)
  qed
qed

lemma MakeStandardString_result:
  assumes "invariant s"
  shows "MakeStandardString s = Inr (map replace_or_narrow (takeWhile (\<lambda>u. u \<noteq> 0) (units s)))"
proof -
  from assms have ne: "length_u s < length (str s)"
    by (simp add: invariant_def length_u_def)
  have u: "take (length_u s) (str s) = units s"
    by (simp add: units_def length_u_def butlast_conv_take)
  have "narrow_loop s (length_u s) (replicate (length_u s + 1) 0) 0 =
    Inr (map replace_or_narrow (units s) @ [0])"
    using ne by (subst narrow_loop_result) (simp_all add: u replicate_append_same [symmetric])
  moreover have "takeWhile (\<lambda>b. b \<noteq> 0) (map replace_or_narrow (units s)) =
    map replace_or_narrow (takeWhile (\<lambda>u. u \<noteq> 0) (units s))"
    by (simp add: takeWhile_map comp_def replace_or_narrow_zero)
  moreover have "takeWhile (\<lambda>b. b \<noteq> 0) (map replace_or_narrow (units s) @ [0 :: byte]) =
     takeWhile (\<lambda>b. b \<noteq> 0) (map replace_or_narrow (units s))"
    by (rule takeWhile_nonzero_snoc)
  ultimately show ?thesis
    by (simp add: MakeStandardString_def copy_loop_result del: replicate_Suc)
qed

text \<open>
  C6, as the code has it. \<open>MakeStandardString\<close> never fails; it returns, in order, one
  byte for each unit that precedes the first zero unit of the buffer: \<open>?\<close> for a unit
  above \<open>0xFF\<close> and the unit's one-byte value otherwise. For a buffer without a zero
  unit these are all its units; a unit \<open>0x4E2D\<close> gives \<open>?\<close> at its position.
\<close>

theorem MakeStandardString_bytes_before_first_zero:
  "invariant s \<Longrightarrow>
   MakeStandardString s = Inr (map replace_or_narrow (takeWhile (\<lambda>u. u \<noteq> 0) (units s))) \<and>
   (0 \<notin> set (units s) \<longrightarrow> MakeStandardString s = Inr (map replace_or_narrow (units s)))"
proof -
  assume "invariant s"
  then have r: "MakeStandardString s =
      Inr (map replace_or_narrow (takeWhile (\<lambda>u. u \<noteq> 0) (units s)))"
    by (rule MakeStandardString_result)
  show ?thesis
  proof (intro conjI impI)
    assume "0 \<notin> set (units s)"
    then have "takeWhile (\<lambda>u. u \<noteq> 0) (units s) = units s"
      by (auto simp: takeWhile_eq_all_conv)
    with r show "MakeStandardString s = Inr (map replace_or_narrow (units s))"
      by simp
  qed (rule r)
qed

theorem MakeStandardString_bytes_before_first_zero_witness:
  "MakeStandardString \<lparr>str = [0x41, 0x4E2D, 0xE9, 0]\<rparr> = Inr [0x41, 0x3F, 0xE9]"
proof -
  let ?s = "\<lparr>str = [0x41, 0x4E2D, 0xE9, 0 :: uint16_t]\<rparr>"
  have "invariant ?s" by (simp add: invariant_def)
  from MakeStandardString_bytes_before_first_zero [OF this]
  show ?thesis by (simp add: units_def replace_or_narrow_def)
qed

text \<open>
  C6, as stated (a byte for every unit of every buffer), fails on the buffer with the
  units \<open>[0x41, 0, 0x42]\<close>: the result is the one byte \<open>0x41\<close>.
\<close>

theorem MakeStandardString_interior_zero_counterexample:
  "invariant \<lparr>str = [0x41, 0, 0x42, 0]\<rparr> \<and>
   MakeStandardString \<lparr>str = [0x41, 0, 0x42, 0]\<rparr> = Inr [0x41] \<and>
   map replace_or_narrow (units \<lparr>str = [0x41, 0, 0x42, 0]\<rparr>) = [0x41, 0, 0x42]"
  by (simp add: invariant_def MakeStandardString_def length_u_def operator_index_def
      units_def replace_or_narrow_def)

text \<open>
  C10. If a buffer has a zero unit among its logical units (appending the unit \<open>0\<close>
  builds one), \<open>MakeStandardString\<close> returns only the bytes for the units before the
  first zero unit, fewer bytes than the buffer has units.
\<close>

theorem MakeStandardString_truncated_at_zero_unit:
  "invariant s \<Longrightarrow> k < length_u s \<Longrightarrow> operator_index s k = Inr 0 \<Longrightarrow>
   (\<forall>i. i < k \<longrightarrow> operator_index s i \<noteq> Inr 0) \<Longrightarrow>
   MakeStandardString s = Inr (map replace_or_narrow (take k (units s))) \<and>
   length (map replace_or_narrow (take k (units s))) < length_u s"
proof -
  assume inv: "invariant s" and k: "k < length_u s" and z: "operator_index s k = Inr 0"
    and nz: "\<forall>i. i < k \<longrightarrow> operator_index s i \<noteq> Inr 0"
  have at: "units s ! i = str s ! i" if "i < length_u s" for i
    using that by (simp add: units_def length_u_def nth_butlast)
  have "units s ! k = 0"
    using z k operator_index_logical [of k s] by (simp add: at)
  moreover have "units s ! i \<noteq> 0" if "i < k" for i
    using nz that k operator_index_logical [of i s] by (auto simp: at)
  ultimately have "takeWhile (\<lambda>u. u \<noteq> 0) (units s) = take k (units s)"
    by (intro takeWhile_eq_take_P_nth) simp_all
  with MakeStandardString_result [OF inv] k show ?thesis
    by (simp add: length_u_units)
qed

theorem MakeStandardString_truncated_at_zero_unit_witness:
  "operator_plus_assign_c \<lparr>str = [0x41, 0]\<rparr> 0 = Inr \<lparr>str = [0x41, 0, 0]\<rparr> \<and>
   length_u \<lparr>str = [0x41, 0, 0]\<rparr> = 2 \<and>
   MakeStandardString \<lparr>str = [0x41, 0, 0]\<rparr> = Inr [0x41]"
proof -
  let ?s = "\<lparr>str = [0x41, 0, 0 :: uint16_t]\<rparr>"
  have i: "invariant ?s" and k: "1 < length_u ?s" and z: "operator_index ?s 1 = Inr 0"
    by (simp_all add: invariant_def length_u_def operator_index_def)
  have nz: "\<forall>i. i < 1 \<longrightarrow> operator_index ?s i \<noteq> Inr 0"
    by (simp add: operator_index_def length_u_def)
  from MakeStandardString_truncated_at_zero_unit [OF i k z nz]
  have "MakeStandardString ?s = Inr [0x41]"
    by (simp add: units_def replace_or_narrow_def)
  then show ?thesis
    by (simp add: operator_plus_assign_c_def insert_before_last_def length_u_def)
qed

subsection \<open>\<^verbatim>\<open>MakeUnicodeString\<close>\<close>

lemma takeWhile_nonzero_before_zeros:
  "0 \<in> set xs \<Longrightarrow> takeWhile (\<lambda>u. u \<noteq> 0) (xs @ ys) = takeWhile (\<lambda>u. u \<noteq> 0) xs"
  by (induction xs) auto

text \<open>
  The \<^verbatim>\<open>else\<close> branch appends to \<^verbatim>\<open>ubuff\<close>, behind the \<open>length\<close> zeros it was created
  with, while \<^verbatim>\<open>utf16String\<close> stays at the start of the storage it had before. When the
  transcoder cannot be opened, the constructor therefore reads either released storage or
  the leading zero, whatever the text is.
\<close>

lemma elems_push_back: "elems (push_back v x) = elems v @ [x]"
  by (simp add: push_back_def)

lemma widen_loop_appends:
  "len \<le> length bytes + 1 \<Longrightarrow>
   \<exists>v xs. widen_loop h bytes ubuff len c = Inr v \<and> elems v = elems ubuff @ xs"
proof (induction h bytes ubuff len c rule: widen_loop.induct)
  case (1 h bytes ubuff len c)
  show ?case
  proof (cases "c < len")
    case False
    then show ?thesis by simp
  next
    case True
    with 1(2) obtain b where b: "string_at bytes c = Inr b"
      by (cases "c < length bytes") (auto simp: string_at_def)
    from "1.IH" [OF True b 1(2)] obtain v xs where
      "widen_loop h bytes (push_back ubuff (char_to_uint16 h b)) len (c + 1) = Inr v"
      "elems v = elems (push_back ubuff (char_to_uint16 h b)) @ xs"
      by blast
    with True b show ?thesis
      by (subst widen_loop.simps) (simp add: elems_push_back)
  qed
qed

lemma MakeUnicodeString_open_failure:
  assumes "bytes \<noteq> []" "iconv h (bytes @ [0]) = OpenFailed"
  shows "MakeUnicodeString h bytes = Inl DanglingPointer \<or>
         MakeUnicodeString h bytes = Inr \<lparr>str = [0]\<rparr>"
proof -
  let ?ubuff = "\<lparr>elems = replicate (Suc (length bytes)) 0,
      capacity = Suc (length bytes + vector_slack h), block = 0\<rparr>"
  from assms have conv: "UTF8ToUTF16 h bytes (replicate (Suc (length bytes)) 0) =
      (False, replicate (Suc (length bytes)) 0)"
    by (simp add: UTF8ToUTF16_def del: replicate_Suc)
  obtain v xs where v: "widen_loop h bytes ?ubuff (Suc (length bytes)) 0 = Inr v"
      "elems v = elems ?ubuff @ xs"
    using widen_loop_appends [of "Suc (length bytes)" bytes h ?ubuff 0] by auto
  then obtain ys where ys: "elems (push_back v 0) = 0 # ys"
    by (auto simp: elems_push_back)
  have "ustring_at_pointer (push_back v 0) 0 0 = Inl DanglingPointer \<or>
        ustring_at_pointer (push_back v 0) 0 0 = Inr \<lparr>str = [0]\<rparr>"
    by (simp add: ustring_at_pointer_def ys ustring_from_ptr_def vec_at_def)
  then show ?thesis
    by (simp add: MakeUnicodeString_def Let_def conv v(1) del: replicate_Suc widen_loop.simps)
qed

text \<open>
  C3. The claim: when the transcoder cannot be opened or fails, the result is the
  byte-widened input, for the one-byte text \<open>A\<close> the buffer with the unit \<open>0x41\<close>. The
  code, on that text with a transcoder that cannot be opened: \<^verbatim>\<open>ubuff\<close> becomes
  \<open>[0, 0, 0x41, 0, 0]\<close>; with no spare capacity the first \<^verbatim>\<open>push_back\<close> has moved the
  storage and \<^verbatim>\<open>utf16String\<close> dangles, with spare capacity the pointer is at the leading
  \<open>0\<close> and the result is the empty buffer. The same with a transcoder that fails after
  one unit of the text \<open>[0x41, 0xFF]\<close>.
\<close>

theorem MakeUnicodeString_fallback_not_widening:
  "MakeUnicodeString
     \<lparr>big_endian = False, char_signed = True, vector_slack = 0, iconv = (\<lambda>_. OpenFailed)\<rparr>
     [0x41] = Inl DanglingPointer \<and>
   MakeUnicodeString
     \<lparr>big_endian = False, char_signed = True, vector_slack = 3, iconv = (\<lambda>_. OpenFailed)\<rparr>
     [0x41] = Inr \<lparr>str = [0]\<rparr> \<and>
   MakeUnicodeString
     \<lparr>big_endian = False, char_signed = True, vector_slack = 0, iconv = (\<lambda>_. ConvFailed [0x41])\<rparr>
     [0x41, 0xFF] = Inl DanglingPointer"
  by (simp add: MakeUnicodeString_def UTF8ToUTF16_def iconv_store_def vec_at_def
      ustring_at_pointer_def push_back_def string_at_def char_to_uint16_def
      ustring_from_ptr_def)

text \<open>
  The mark and the byte-swapping block. In a little-endian build the block is compiled
  out: when the transcoder succeeds, its output ends with the converted terminating zero
  and fits the destination, and the first unit written is \<open>0xFEFF\<close> or \<open>0xFFFE\<close>, the
  result holds the units that follow the mark, up to the first zero.
\<close>

lemma MakeUnicodeString_little_endian_mark:
  "\<not> big_endian h \<Longrightarrow> bytes \<noteq> [] \<Longrightarrow> iconv h (bytes @ [0]) = Converted ws \<Longrightarrow>
   length ws \<le> length bytes + 1 \<Longrightarrow> ws \<noteq> [] \<Longrightarrow> last ws = 0 \<Longrightarrow>
   hd ws = 0xFEFF \<or> hd ws = 0xFFFE \<Longrightarrow>
   MakeUnicodeString h bytes = Inr \<lparr>str = takeWhile (\<lambda>u. u \<noteq> 0) (tl ws) @ [0]\<rparr>"
proof -
  assume le: "\<not> big_endian h" and ne: "bytes \<noteq> []"
    and conv: "iconv h (bytes @ [0]) = Converted ws"
    and fits: "length ws \<le> length bytes + 1"
    and ws: "ws \<noteq> []" "last ws = 0" and bom: "hd ws = 0xFEFF \<or> hd ws = 0xFFFE"
  define dest where "dest = ws @ replicate (Suc (length bytes) - length ws) 0"
  from ws bom obtain w rest where w: "ws = w # rest" "(w = 0xFEFF \<or> w = 0xFFFE) = True"
    by (cases ws) auto
  with ws have rest: "rest \<noteq> []" "last rest = 0"
    by (auto split: if_splits)
  then have z: "0 \<in> set rest" using last_in_set by metis
  have store: "iconv_store ws (replicate (Suc (length bytes)) 0) = dest"
    using fits by (simp add: iconv_store_def dest_def del: replicate_Suc)
  have conv': "UTF8ToUTF16 h bytes (replicate (Suc (length bytes)) 0) = (True, dest)"
    using ne conv store by (simp add: UTF8ToUTF16_def del: replicate_Suc)
  have first: "vec_at dest 0 = Inr w"
    using w by (simp add: vec_at_def dest_def)
  have "drop (Suc 0) dest = rest @ replicate (Suc (length bytes) - length ws) 0"
    using w by (simp add: dest_def)
  then have ptr: "ustring_from_ptr (Some (drop (Suc 0) dest)) =
      Inr \<lparr>str = takeWhile (\<lambda>u. u \<noteq> 0) rest @ [0]\<rparr>"
    using z by (simp add: ustring_from_ptr_terminated takeWhile_nonzero_before_zeros)
  have "MakeUnicodeString h bytes = Inr \<lparr>str = takeWhile (\<lambda>u. u \<noteq> 0) rest @ [0]\<rparr>"
    by (simp add: MakeUnicodeString_def Let_def conv' first w(2) ptr ustring_at_pointer_def le
        del: replicate_Suc)
  then show ?thesis using w by simp
qed

text \<open>
  In a big-endian build the block runs after the mark has been skipped. The loop counts
  \<open>length\<close> iterations from the advanced pointer, one more than the elements left in
  \<^verbatim>\<open>ubuff\<close>: whatever the text, a run that skips a mark reads \<^verbatim>\<open>ubuff[length]\<close>.
\<close>

lemma swap_loop_overrun:
  "c < len \<Longrightarrow> length buf < off + len \<Longrightarrow> swap_loop buf off len c = Inl OutOfBounds"
proof (induction buf off len c rule: swap_loop.induct)
  case (1 buf off len c)
  show ?case
  proof (cases "off + c < length buf")
    case False
    with 1(3) show ?thesis
      by (subst swap_loop.simps) (simp add: vec_at_def)
  next
    case True
    with 1(4) have next_c: "c + 1 < len" by linarith
    let ?u = "buf ! (off + c)"
    have at: "vec_at buf (off + c) = Inr ?u"
      using True by (simp add: vec_at_def)
    show ?thesis
    proof (cases "?u AND 0xFF80 \<noteq> 0")
      case swapped: True
      have "swap_loop (buf[off + c := push_bit 8 ?u OR drop_bit 8 ?u]) off len (c + 1) =
          Inl OutOfBounds"
        using 1(3,4) next_c swapped at by (intro "1.IH"(1)) simp_all
      with 1(3) at swapped show ?thesis
        by (subst swap_loop.simps) simp
    next
      case kept: False
      have "swap_loop buf off len (c + 1) = Inl OutOfBounds"
        using 1(3,4) next_c kept at by (intro "1.IH"(2)) simp_all
      with 1(3) at kept show ?thesis
        by (subst swap_loop.simps) simp
    qed
  qed
qed

lemma MakeUnicodeString_big_endian_mark:
  assumes be: "big_endian h" and ne: "bytes \<noteq> []"
    and conv: "iconv h (bytes @ [0]) = Converted ws"
    and ws: "ws \<noteq> []" and bom: "hd ws = 0xFEFF \<or> hd ws = 0xFFFE"
  shows "MakeUnicodeString h bytes = Inl OutOfBounds"
proof -
  define dest where "dest = iconv_store ws (replicate (Suc (length bytes)) 0)"
  have len: "length dest = Suc (length bytes)"
    by (simp add: dest_def iconv_store_def del: replicate_Suc)
  have conv': "UTF8ToUTF16 h bytes (replicate (Suc (length bytes)) 0) = (True, dest)"
    using ne conv by (simp add: UTF8ToUTF16_def dest_def del: replicate_Suc)
  from ws obtain w rest where w: "ws = w # rest" by (cases ws) auto
  with bom have mark: "(w = 0xFEFF \<or> w = 0xFFFE) = True" by simp
  have first: "vec_at dest 0 = Inr w"
    using w by (simp add: vec_at_def dest_def iconv_store_def del: replicate_Suc)
  have over: "swap_loop dest (Suc 0) (Suc (length bytes)) 0 = Inl OutOfBounds"
    by (rule swap_loop_overrun) (simp_all add: len)
  show ?thesis
    by (simp add: MakeUnicodeString_def Let_def conv' first mark over be
        del: replicate_Suc swap_loop.simps)
qed

text \<open>
  C8. The claim: when the transcoder succeeds and the first unit produced is a byte-order
  mark, the returned buffer begins with the unit that follows the mark. The code, in a
  big-endian build, on the text \<open>EF BB BF C3 A9 41\<close> converted to
  \<open>[0xFEFF, 0xE9, 0x41, 0]\<close>: \<^verbatim>\<open>ubuff\<close> has \<open>7\<close> elements, \<^verbatim>\<open>utf16String\<close> is
  \<^verbatim>\<open>&ubuff[1]\<close>, and the seventh iteration of the loop reads \<^verbatim>\<open>utf16String[6]\<close>, past the
  end of the vector; no buffer is returned. The same text in a little-endian build gives
  the buffer \<open>[0xE9, 0x41]\<close>.
\<close>

theorem MakeUnicodeString_big_endian_mark_overrun:
  "MakeUnicodeString
     \<lparr>big_endian = True, char_signed = True, vector_slack = 0,
      iconv = (\<lambda>_. Converted [0xFEFF, 0xE9, 0x41, 0])\<rparr>
     [0xEF, 0xBB, 0xBF, 0xC3, 0xA9, 0x41] = Inl OutOfBounds \<and>
   MakeUnicodeString
     \<lparr>big_endian = False, char_signed = True, vector_slack = 0,
      iconv = (\<lambda>_. Converted [0xFEFF, 0xE9, 0x41, 0])\<rparr>
     [0xEF, 0xBB, 0xBF, 0xC3, 0xA9, 0x41] = Inr \<lparr>str = [0xE9, 0x41, 0]\<rparr>"
proof -
  let ?ws = "[0xFEFF, 0xE9, 0x41, 0 :: uint16_t]"
  let ?b = "[0xEF, 0xBB, 0xBF, 0xC3, 0xA9, 0x41 :: byte]"
  let ?be = "\<lparr>big_endian = True, char_signed = True, vector_slack = 0,
      iconv = (\<lambda>_. Converted ?ws)\<rparr>"
  let ?le = "\<lparr>big_endian = False, char_signed = True, vector_slack = 0,
      iconv = (\<lambda>_. Converted ?ws)\<rparr>"
  have "MakeUnicodeString ?be ?b = Inl OutOfBounds"
    using MakeUnicodeString_big_endian_mark [of ?be ?b ?ws] by simp
  moreover have "MakeUnicodeString ?le ?b = Inr \<lparr>str = [0xE9, 0x41, 0]\<rparr>"
    using MakeUnicodeString_little_endian_mark [of ?le ?b ?ws] by simp
  ultimately show ?thesis by simp
qed

end
